theory Spec2Isabelle
  imports Main "HOL-Library.Log_Nat" "HOL-Library.Word"
begin

section \<open>Go primitives used by media/image.go\<close>

subsection \<open>float64 arithmetic\<close>

text \<open>
  A finite float64 is modelled by the rational number it denotes. Every arithmetic
  operation is the exact operation followed by \<open>round64\<close>, rounding to the nearest
  number with a 53-bit significand, ties to even, as IEEE 754 binary64 does. The
  exponent is not bounded: infinities, NaN, signed zero and subnormals are outside the
  model. For positive operands that fit Go's 64-bit \<open>int\<close>, every quotient and product
  formed by the resolvers lies between \<open>2 powi (-63)\<close> and \<open>2 ^ 126\<close>, far inside the
  normal range of binary64, so there the model and the machine agree bit by bit.
\<close>

definition ilog2 :: "rat \<Rightarrow> int" where
  "ilog2 x = (let (p, q) = quotient_of x; k = bitlen p - bitlen q
              in if 2 powi k \<le> x then k else k - 1)"

definition round_half_even :: "rat \<Rightarrow> int" where
  "round_half_even x = (let f = \<lfloor>x\<rfloor>; d = x - of_int f
     in if d < 1 / 2 then f else if 1 / 2 < d then f + 1 else if even f then f else f + 1)"

definition round64 :: "rat \<Rightarrow> rat" where
  "round64 x = (if x = 0 then 0
     else let e = ilog2 \<bar>x\<bar> - 52 in of_int (round_half_even (x / 2 powi e)) * 2 powi e)"

text \<open>\<open>float64(n)\<close> for an int \<open>n\<close>, and the float64 operators \<open>/\<close> and \<open>*\<close>.\<close>

definition float64 :: "int \<Rightarrow> rat" where
  "float64 n = round64 (of_int n)"

definition fdiv :: "rat \<Rightarrow> rat \<Rightarrow> rat" where
  "fdiv a b = round64 (a / b)"

definition fmul :: "rat \<Rightarrow> rat \<Rightarrow> rat" where
  "fmul a b = round64 (a * b)"

text \<open>
  \<open>int(f)\<close> for a float64 \<open>f\<close>: the fraction is discarded (truncation towards zero).
  Go leaves the result implementation-dependent when it does not fit the int; Go's int
  is modelled as an unbounded integer, so the model is exact while the value stays below
  \<open>2 ^ 63\<close> in magnitude.
\<close>

definition int_of_float64 :: "rat \<Rightarrow> int" where
  "int_of_float64 x = (if 0 \<le> x then \<lfloor>x\<rfloor> else \<lceil>x\<rceil>)"

text \<open>Go's integer division truncates towards zero.\<close>

definition quo :: "int \<Rightarrow> int \<Rightarrow> int" where
  "quo a b = sgn a * sgn b * (\<bar>a\<bar> div \<bar>b\<bar>)"

subsection \<open>image.Point and image.Rectangle\<close>

record Point =
  X :: int
  Y :: int

record Rectangle =
  MinR :: Point
  MaxR :: Point

definition ZP :: Point where
  "ZP = \<lparr>X = 0, Y = 0\<rparr>"

definition ZR :: Rectangle where
  "ZR = \<lparr>MinR = ZP, MaxR = ZP\<rparr>"

text \<open>\<open>image.Rect\<close> swaps the coordinates of an axis given in the wrong order.\<close>

definition Rect :: "int \<Rightarrow> int \<Rightarrow> int \<Rightarrow> int \<Rightarrow> Rectangle" where
  "Rect x0 y0 x1 y1 =
     (let (x0', x1') = (if x0 > x1 then (x1, x0) else (x0, x1));
          (y0', y1') = (if y0 > y1 then (y1, y0) else (y0, y1))
      in \<lparr>MinR = \<lparr>X = x0', Y = y0'\<rparr>, MaxR = \<lparr>X = x1', Y = y1'\<rparr>\<rparr>)"

definition Dx :: "Rectangle \<Rightarrow> int" where
  "Dx r = X (MaxR r) - X (MinR r)"

definition Dy :: "Rectangle \<Rightarrow> int" where
  "Dy r = Y (MaxR r) - Y (MinR r)"

definition Add :: "Rectangle \<Rightarrow> Point \<Rightarrow> Rectangle" where
  "Add r p = \<lparr>MinR = \<lparr>X = X (MinR r) + X p, Y = Y (MinR r) + Y p\<rparr>,
              MaxR = \<lparr>X = X (MaxR r) + X p, Y = Y (MaxR r) + Y p\<rparr>\<rparr>"

definition Empty :: "Rectangle \<Rightarrow> bool" where
  "Empty r \<longleftrightarrow> X (MinR r) \<ge> X (MaxR r) \<or> Y (MinR r) \<ge> Y (MaxR r)"

text \<open>\<open>r.In(s)\<close>: every point of \<open>r\<close> is in \<open>s\<close>; an empty \<open>r\<close> is in every \<open>s\<close>.\<close>

definition In :: "Rectangle \<Rightarrow> Rectangle \<Rightarrow> bool" where
  "In r s \<longleftrightarrow> (if Empty r then True
     else X (MinR s) \<le> X (MinR r) \<and> X (MaxR r) \<le> X (MaxR s) \<and>
          Y (MinR s) \<le> Y (MinR r) \<and> Y (MaxR r) \<le> Y (MaxR s))"

text \<open>Whether the point \<open>(x, y)\<close> is in \<open>r\<close> (\<open>Point.In\<close>).\<close>

definition PointIn :: "int \<Rightarrow> int \<Rightarrow> Rectangle \<Rightarrow> bool" where
  "PointIn x y r \<longleftrightarrow> X (MinR r) \<le> x \<and> x < X (MaxR r) \<and> Y (MinR r) \<le> y \<and> y < Y (MaxR r)"

subsection \<open>Colours and pixel buffers\<close>

text \<open>A colour is a \<open>color.RGBA\<close> value; \<open>color.RGBA{}\<close> is its zero value.\<close>

datatype color = RGBA (R: "8 word") (G: "8 word") (B: "8 word") (A: "8 word")

definition RGBA_zero :: color where
  "RGBA_zero = RGBA 0 0 0 0"

datatype colormodel = GrayModel | Gray16Model | RGBAModel | OtherModel

text \<open>
  An \<open>image.Image\<close> is what its three methods return. A pixel of a buffer holds the
  colour that was stored, converted by the buffer's colour model; the conversion of the
  standard library is the parameter \<open>conv\<close> of the functions that store pixels.
\<close>

record GoImage =
  ColorModel :: colormodel
  Bounds :: Rectangle
  At :: "int \<Rightarrow> int \<Rightarrow> color"

text \<open>\<open>image.NewGray(r)\<close> and \<open>image.NewRGBA(r)\<close>: a buffer of zero pixels.\<close>

definition NewGray :: "Rectangle \<Rightarrow> GoImage" where
  "NewGray r = \<lparr>ColorModel = GrayModel, Bounds = r, At = (\<lambda>x y. RGBA_zero)\<rparr>"

definition NewRGBA :: "Rectangle \<Rightarrow> GoImage" where
  "NewRGBA r = \<lparr>ColorModel = RGBAModel, Bounds = r, At = (\<lambda>x y. RGBA_zero)\<rparr>"

text \<open>
  \<open>draw.Draw(dst, r, image.NewUniform(c), image.ZP, draw.Src)\<close>: every pixel of \<open>dst\<close>
  inside \<open>r\<close> is replaced by \<open>c\<close>, converted to the colour model of \<open>dst\<close>.
\<close>

definition DrawUniformSrc ::
  "(colormodel \<Rightarrow> color \<Rightarrow> color) \<Rightarrow> GoImage \<Rightarrow> Rectangle \<Rightarrow> color \<Rightarrow> GoImage" where
  "DrawUniformSrc conv dst r c =
     dst\<lparr>At := (\<lambda>x y. if PointIn x y r \<and> PointIn x y (Bounds dst)
                       then conv (ColorModel dst) c else At dst x y)\<rparr>"

section \<open>The data model\<close>

type_synonym HorAlignment = int

definition HorCenter :: HorAlignment where "HorCenter = 0"
definition Left :: HorAlignment where "Left = 1"
definition Right :: HorAlignment where "Right = 2"

type_synonym VerAlignment = int

definition VerCenter :: VerAlignment where "VerCenter = 0"
definition Top :: VerAlignment where "Top = 1"
definition Bottom :: VerAlignment where "Bottom = 2"

text \<open>
  Modelled from the spec: the declaration of \<open>ImageVersion\<close> is not in media/image.go.
  The fields are the attributes the spec lists for a rendition, under the names
  image.go reads them by (the back-reference to the owning image and the handle of the
  stored bytes play no part in what follows).
\<close>

record ImageVersion =
  Filename :: string
  ContentType :: string
  SourceRect :: Rectangle
  Width :: int
  Height :: int
  Grayscale :: bool
  OutsideColor :: color

record Image =
  ID :: string
  Description :: string
  Link :: string
  Versions :: "ImageVersion list"

text \<open>
  Modelled from the spec: \<open>newImageVersion\<close> is called by image.go and defined elsewhere.
  It receives the filename, content type, source rectangle, output size and colour mode
  and no fill colour, so \<open>OutsideColor\<close> keeps its zero value, the default (transparent)
  fill of the spec.
\<close>

definition newImageVersion ::
  "string \<Rightarrow> string \<Rightarrow> Rectangle \<Rightarrow> int \<Rightarrow> int \<Rightarrow> bool \<Rightarrow> ImageVersion" where
  "newImageVersion filename contentType sourceRect width height grayscale =
     \<lparr>Filename = filename, ContentType = contentType, SourceRect = sourceRect,
      Width = width, Height = height, Grayscale = grayscale, OutsideColor = RGBA_zero\<rparr>"

text \<open>
  Modelled from the spec: \<open>OutsideColor.EqualsColor\<close> is defined elsewhere; the spec's
  match predicate is exact equality on the key fields.
\<close>

definition EqualsColor :: "color \<Rightarrow> color \<Rightarrow> bool" where
  "EqualsColor c d \<longleftrightarrow> c = d"

text \<open>
  Modelled from the spec: \<open>ImageVersion.AspectRatio\<close> is defined elsewhere; the aspect
  ratio is width / height in floating point (image.go: "AspectRatio returns Width / Height").
\<close>

definition AspectRatio :: "ImageVersion \<Rightarrow> rat" where
  "AspectRatio v = fdiv (float64 (Width v)) (float64 (Height v))"

datatype error =
    IndexOutOfRange \<comment> \<open>the run-time panic of \<open>self.Versions[0]\<close> on an empty slice\<close>
  | DecodeError
  | EncodeError
  | StorageError

section \<open>The geometry resolver\<close>

text \<open>
  Both resolvers call \<open>self.AspectRatio()\<close> first, which reads \<open>self.Versions[0]\<close> and
  panics on an empty slice; \<open>self.Width()\<close> and \<open>self.Height()\<close> read the same element.
  A \<open>switch\<close> on the alignment without a matching case leaves the offset zero.
\<close>

definition touchOriginalFromOutsideSourceRect ::
  "Image \<Rightarrow> int \<Rightarrow> int \<Rightarrow> HorAlignment \<Rightarrow> VerAlignment \<Rightarrow> error + Rectangle" where
  "touchOriginalFromOutsideSourceRect self width height horAlign verAlign =
     (case Versions self of
        [] \<Rightarrow> Inl IndexOutOfRange
      | v0 # _ \<Rightarrow>
          (let aspectRatio = fdiv (float64 width) (float64 height) in
           if aspectRatio > AspectRatio v0 then
             (let rx = int_of_float64 (fmul (float64 (Height v0)) aspectRatio);
                  ry = Height v0;
                  ox = (if horAlign = HorCenter then quo (Width v0 - rx) 2
                        else if horAlign = Right then Width v0 - rx else 0)
              in Inr (Add (ZR\<lparr>MaxR := \<lparr>X = rx, Y = ry\<rparr>\<rparr>) \<lparr>X = ox, Y = 0\<rparr>))
           else
             (let rx = Width v0;
                  ry = int_of_float64 (fdiv (float64 (Width v0)) aspectRatio);
                  oy = (if verAlign = VerCenter then quo (Height v0 - ry) 2
                        else if verAlign = Bottom then Height v0 - ry else 0)
              in Inr (Add (ZR\<lparr>MaxR := \<lparr>X = rx, Y = ry\<rparr>\<rparr>) \<lparr>X = 0, Y = oy\<rparr>))))"

definition touchOriginalFromInsideSourceRect ::
  "Image \<Rightarrow> int \<Rightarrow> int \<Rightarrow> HorAlignment \<Rightarrow> VerAlignment \<Rightarrow> error + Rectangle" where
  "touchOriginalFromInsideSourceRect self width height horAlign verAlign =
     (case Versions self of
        [] \<Rightarrow> Inl IndexOutOfRange
      | v0 # _ \<Rightarrow>
          (let aspectRatio = fdiv (float64 width) (float64 height) in
           if aspectRatio > AspectRatio v0 then
             (let rx = Width v0;
                  ry = int_of_float64 (fdiv (float64 (Width v0)) aspectRatio);
                  oy = (if verAlign = VerCenter then quo (Height v0 - ry) 2
                        else if verAlign = Bottom then Height v0 - ry else 0)
              in Inr (Add (ZR\<lparr>MaxR := \<lparr>X = rx, Y = ry\<rparr>\<rparr>) \<lparr>X = 0, Y = oy\<rparr>))
           else
             (let rx = int_of_float64 (fmul (float64 (Height v0)) aspectRatio);
                  ry = Height v0;
                  ox = (if horAlign = HorCenter then quo (Width v0 - rx) 2
                        else if horAlign = Right then Width v0 - rx else 0)
              in Inr (Add (ZR\<lparr>MaxR := \<lparr>X = rx, Y = ry\<rparr>\<rparr>) \<lparr>X = ox, Y = 0\<rparr>))))"

section \<open>Collaborators\<close>

text \<open>
  The storage backend, the resampling primitive and the colour conversion of the
  standard library are outside media/image.go. They are parameters of the model: what a
  call returns is given by the environment, and every call is recorded in a trace.
\<close>

record Env =
  LoadImage :: "ImageVersion \<Rightarrow> error + GoImage"
    \<comment> \<open>\<open>version.LoadImage()\<close>\<close>
  VersionSaveImage :: "ImageVersion \<Rightarrow> GoImage \<Rightarrow> error option"
    \<comment> \<open>\<open>version.SaveImage(versionImage)\<close>; \<open>None\<close> is the nil error\<close>
  BackendSaveImage :: "Image \<Rightarrow> error option"
    \<comment> \<open>\<open>Config.Backend.SaveImage(self)\<close>\<close>
  ResizeImage :: "GoImage \<Rightarrow> Rectangle \<Rightarrow> int \<Rightarrow> int \<Rightarrow> GoImage"
  Convert :: "colormodel \<Rightarrow> color \<Rightarrow> color"

datatype call =
    CallLoadImage ImageVersion
  | CallResizeImage GoImage Rectangle int int
  | CallVersionSaveImage ImageVersion GoImage
  | CallBackendSaveImage Image

text \<open>
  What a method of \<open>*Image\<close> leaves behind: the returned pair (the index into
  \<open>Versions\<close> of the version the returned pointer refers to, or the error), the image
  after the call, and the calls made to the collaborators, in order.
\<close>

record Outcome =
  result :: "error + nat"
  image :: Image
  trace :: "call list"

section \<open>The version cache and the materializer\<close>

definition matchVersion ::
  "ImageVersion \<Rightarrow> Rectangle \<Rightarrow> int \<Rightarrow> int \<Rightarrow> color \<Rightarrow> bool \<Rightarrow> bool" where
  "matchVersion v sourceRect width height outsideColor grayscale \<longleftrightarrow>
     SourceRect v = sourceRect \<and>
     Width v = width \<and>
     Height v = height \<and>
     EqualsColor (OutsideColor v) outsideColor \<and>
     Grayscale v = grayscale"

text \<open>The loop \<open>for i := range self.Versions\<close>, from index \<open>i\<close> on.\<close>

fun searchVersions ::
  "Rectangle \<Rightarrow> int \<Rightarrow> int \<Rightarrow> color \<Rightarrow> bool \<Rightarrow> ImageVersion list \<Rightarrow> nat \<Rightarrow> nat option" where
  "searchVersions sourceRect width height outsideColor grayscale [] i = None"
| "searchVersions sourceRect width height outsideColor grayscale (v # vs) i =
     (if matchVersion v sourceRect width height outsideColor grayscale then Some i
      else searchVersions sourceRect width height outsideColor grayscale vs (Suc i))"

text \<open>The pixel buffer of a new version.\<close>

definition versionImage ::
  "Env \<Rightarrow> ImageVersion \<Rightarrow> GoImage \<Rightarrow> Rectangle \<Rightarrow> int \<Rightarrow> int \<Rightarrow> bool \<Rightarrow> color \<Rightarrow> GoImage" where
  "versionImage env v0 origImage sourceRect width height grayscale outsideColor =
     (if In sourceRect (SourceRect v0) then
        ResizeImage env origImage sourceRect width height
      else
        (let canvas = (if grayscale then NewGray (Rect 0 0 width height)
                       else NewRGBA (Rect 0 0 width height))
         in DrawUniformSrc (Convert env) canvas (Bounds canvas) outsideColor))"

definition SourceRectVersion ::
  "Env \<Rightarrow> Image \<Rightarrow> Rectangle \<Rightarrow> int \<Rightarrow> int \<Rightarrow> bool \<Rightarrow> color \<Rightarrow> Outcome" where
  "SourceRectVersion env self sourceRect width height grayscale0 outsideColor =
     (case Versions self of
        [] \<Rightarrow> \<lparr>result = Inl IndexOutOfRange, image = self, trace = []\<rparr>
      | v0 # _ \<Rightarrow>
          (let grayscale = (if Grayscale v0 then True else grayscale0) in
           case searchVersions sourceRect width height outsideColor grayscale (Versions self) 0 of
             Some i \<Rightarrow> \<lparr>result = Inr i, image = self, trace = []\<rparr>
           | None \<Rightarrow>
               (case LoadImage env v0 of
                  Inl err \<Rightarrow> \<lparr>result = Inl err, image = self, trace = [CallLoadImage v0]\<rparr>
                | Inr origImage \<Rightarrow>
                    (let pic = versionImage env v0 origImage sourceRect width height
                                 grayscale outsideColor;
                         calls = CallLoadImage v0 #
                           (if In sourceRect (SourceRect v0)
                            then [CallResizeImage origImage sourceRect width height] else []);
                         self' = self\<lparr>Versions := Versions self @
                           [newImageVersion (Filename v0) (ContentType v0) sourceRect
                              width height grayscale]\<rparr>;
                         i = length (Versions self') - 1;
                         version = Versions self' ! i
                     in case VersionSaveImage env version pic of
                          Some err \<Rightarrow>
                            \<lparr>result = Inl err, image = self',
                             trace = calls @ [CallVersionSaveImage version pic]\<rparr>
                        | None \<Rightarrow>
                            (case BackendSaveImage env self' of
                               Some err \<Rightarrow>
                                 \<lparr>result = Inl err, image = self',
                                  trace = calls @ [CallVersionSaveImage version pic,
                                                   CallBackendSaveImage self']\<rparr>
                             | None \<Rightarrow>
                                 \<lparr>result = Inr i, image = self',
                                  trace = calls @ [CallVersionSaveImage version pic,
                                                   CallBackendSaveImage self']\<rparr>)))))"

text \<open>
  The arguments of the call are evaluated first, so a panic of the resolver ends the
  call before \<open>SourceRectVersion\<close> starts.
\<close>

definition VersionTouchOrigFromOutside ::
  "Env \<Rightarrow> Image \<Rightarrow> int \<Rightarrow> int \<Rightarrow> HorAlignment \<Rightarrow> VerAlignment \<Rightarrow> bool \<Rightarrow> color \<Rightarrow> Outcome" where
  "VersionTouchOrigFromOutside env self width height horAlign verAlign grayscale outsideColor =
     (case touchOriginalFromOutsideSourceRect self width height horAlign verAlign of
        Inl err \<Rightarrow> \<lparr>result = Inl err, image = self, trace = []\<rparr>
      | Inr r \<Rightarrow> SourceRectVersion env self r width height grayscale outsideColor)"

definition Version ::
  "Env \<Rightarrow> Image \<Rightarrow> int \<Rightarrow> int \<Rightarrow> HorAlignment \<Rightarrow> VerAlignment \<Rightarrow> bool \<Rightarrow> Outcome" where
  "Version env self width height horAlign verAlign grayscale =
     (case touchOriginalFromInsideSourceRect self width height horAlign verAlign of
        Inl err \<Rightarrow> \<lparr>result = Inl err, image = self, trace = []\<rparr>
      | Inr r \<Rightarrow> SourceRectVersion env self r width height grayscale RGBA_zero)"

definition CenteredVersion :: "Env \<Rightarrow> Image \<Rightarrow> int \<Rightarrow> int \<Rightarrow> bool \<Rightarrow> Outcome" where
  "CenteredVersion env self width height grayscale =
     Version env self width height HorCenter VerCenter grayscale"

definition CenteredVersionTouchOrigFromOutside ::
  "Env \<Rightarrow> Image \<Rightarrow> int \<Rightarrow> int \<Rightarrow> bool \<Rightarrow> color \<Rightarrow> Outcome" where
  "CenteredVersionTouchOrigFromOutside env self width height grayscale outsideColor =
     VersionTouchOrigFromOutside env self width height HorCenter VerCenter grayscale outsideColor"

section \<open>Ingestion\<close>

text \<open>
  The codecs, the filename sanitation and the storage of the original's bytes are
  outside media/image.go and parameters of \<open>NewImage\<close>.
\<close>

record Codec =
  Decode :: "8 word list \<Rightarrow> error + GoImage \<times> string"
    \<comment> \<open>\<open>image.Decode\<close>: the picture and the name of its format\<close>
  EncodePNG :: "GoImage \<Rightarrow> error + 8 word list"
  ValidUrlFilename :: "string \<Rightarrow> string"
  SaveImageData :: "ImageVersion \<Rightarrow> 8 word list \<Rightarrow> error option"

text \<open>The part of \<open>NewImage\<close> after the format has been normalised.\<close>

definition storeOriginal ::
  "Codec \<Rightarrow> string \<Rightarrow> 8 word list \<Rightarrow> GoImage \<Rightarrow> string \<Rightarrow> error + Image" where
  "storeOriginal codec filename data i t =
     (let width = Dx (Bounds i);
          height = Dy (Bounds i);
          version = newImageVersion (ValidUrlFilename codec filename) (''image/'' @ t)
                      (Rect 0 0 width height) width height
                      (ColorModel i = GrayModel \<or> ColorModel i = Gray16Model)
      in case SaveImageData codec version data of
           Some err \<Rightarrow> Inl err
         | None \<Rightarrow> Inr \<lparr>ID = [], Description = [], Link = [], Versions = [version]\<rparr>)"

definition NewImage :: "Codec \<Rightarrow> string \<Rightarrow> 8 word list \<Rightarrow> error + Image" where
  "NewImage codec filename data =
     (case Decode codec data of
        Inl err \<Rightarrow> Inl err
      | Inr (i, t) \<Rightarrow>
          if t = ''gif'' \<or> t = ''bmp'' \<or> t = ''tiff'' then
            (case EncodePNG codec i of
               Inl err \<Rightarrow> Inl err
             | Inr buf \<Rightarrow>
                 (case Decode codec buf of
                    Inl err \<Rightarrow> Inl err
                  | Inr (i', t') \<Rightarrow> storeOriginal codec (filename @ ''.png'') buf i' t'))
          else storeOriginal codec filename data i t)"

section \<open>Example values\<close>

text \<open>
  A colour original of 800 x 600 pixels, the same image after a centred 400 x 400
  version has been added, a grayscale original, collaborators that always succeed, a
  storage that refuses the bytes of a version, and a decoder of PNG data: the inputs at
  which the theorems below are instantiated.
\<close>

definition original800x600 :: ImageVersion where
  "original800x600 = newImageVersion ''a.png'' ''image/png'' (Rect 0 0 800 600) 800 600 False"

definition photo :: Image where
  "photo = \<lparr>ID = [], Description = [], Link = [], Versions = [original800x600]\<rparr>"

definition photoWithSquare :: Image where
  "photoWithSquare = photo\<lparr>Versions := [original800x600,
      newImageVersion ''a.png'' ''image/png'' (Rect 100 0 700 600) 400 400 False]\<rparr>"

definition grayPhoto :: Image where
  "grayPhoto = \<lparr>ID = [], Description = [], Link = [],
     Versions = [newImageVersion ''g.png'' ''image/png'' (Rect 0 0 800 600) 800 600 True]\<rparr>"

definition storageOK :: Env where
  "storageOK = \<lparr>LoadImage = (\<lambda>v. Inr (NewRGBA (Rect 0 0 800 600))),
      VersionSaveImage = (\<lambda>v p. None),
      BackendSaveImage = (\<lambda>i. None),
      ResizeImage = (\<lambda>p r w h. NewRGBA (Rect 0 0 w h)),
      Convert = (\<lambda>m c. c)\<rparr>"

definition storageFull :: Env where
  "storageFull = storageOK\<lparr>VersionSaveImage := (\<lambda>v p. Some StorageError)\<rparr>"

definition pngCodec :: Codec where
  "pngCodec = \<lparr>Decode = (\<lambda>d. Inr (NewRGBA (Rect 0 0 800 600), ''png'')),
      EncodePNG = (\<lambda>i. Inr []),
      ValidUrlFilename = (\<lambda>s. s),
      SaveImageData = (\<lambda>v d. None)\<rparr>"

section \<open>Properties of the float64 model\<close>

lemma bitlen_powi_bounds:
  assumes "0 < p"
  shows "(2::rat) powi (bitlen p - 1) \<le> of_int p" "of_int p < (2::rat) powi (bitlen p)"
proof -
  from bitlen_bounds[OF assms] have b: "2 ^ nat (bitlen p - 1) \<le> p" "p < 2 ^ nat (bitlen p)" by auto
  have ge1: "1 \<le> bitlen p" using assms by (auto simp: bitlen_alt_def)
  have "(of_int (2 ^ nat (bitlen p - 1)) :: rat) \<le> of_int p" using b(1) by (simp only: of_int_le_iff)
  then show "(2::rat) powi (bitlen p - 1) \<le> of_int p" using ge1 by (simp add: power_int_def)
  have "(of_int p :: rat) < of_int (2 ^ nat (bitlen p))" using b(2) by (simp only: of_int_less_iff)
  then show "of_int p < (2::rat) powi (bitlen p)" using ge1 by (simp add: power_int_def)
qed

lemma ilog2_bounds:
  assumes "0 < x"
  shows "2 powi (ilog2 x) \<le> x \<and> x < 2 powi (ilog2 x + 1)"
proof -
  obtain p q where pq: "quotient_of x = (p, q)" by (cases "quotient_of x")
  then have q: "0 < q" and x: "x = of_int p / of_int q"
    using quotient_of_denom_pos quotient_of_div by auto
  have p: "0 < p" using assms q x by (simp add: zero_less_divide_iff)
  define k where "k = bitlen p - bitlen q"
  note bp = bitlen_powi_bounds[OF p] and bq = bitlen_powi_bounds[OF q]
  have qpos: "(0::rat) < of_int q" using q by simp
  have up: "x < 2 powi (k + 1)"
  proof -
    have "of_int p < (2::rat) powi (bitlen p)" by (rule bp)
    also have "\<dots> = 2 powi (k + 1) * 2 powi (bitlen q - 1)"
      by (simp add: k_def flip: power_int_add)
    also have "\<dots> \<le> 2 powi (k + 1) * of_int q"
      using bq(1) by (intro mult_left_mono) auto
    finally show ?thesis using qpos by (simp add: x pos_divide_less_eq)
  qed
  have lo: "2 powi (k - 1) < x"
  proof -
    have "2 powi (k - 1) * of_int q < (2::rat) powi (k - 1) * 2 powi (bitlen q)"
      using bq(2) by (intro mult_strict_left_mono) auto
    also have "\<dots> = 2 powi (bitlen p - 1)"
      by (simp add: k_def flip: power_int_add)
    also have "\<dots> \<le> of_int p" by (rule bp)
    finally show ?thesis using qpos by (simp add: x pos_less_divide_eq)
  qed
  show ?thesis
  proof (cases "2 powi k \<le> x")
    case True
    then have "ilog2 x = k" by (simp add: ilog2_def pq k_def)
    then show ?thesis using True up by simp
  next
    case False
    then have "ilog2 x = k - 1" by (simp add: ilog2_def pq k_def)
    then show ?thesis using False lo by simp
  qed
qed

lemma rhe_err: "\<bar>of_int (round_half_even y) - y\<bar> \<le> 1 / 2"
proof -
  have a: "of_int \<lfloor>y\<rfloor> \<le> y" and b: "y < of_int \<lfloor>y\<rfloor> + 1" by linarith+
  show ?thesis unfolding round_half_even_def Let_def using a b
    by (simp add: abs_le_iff)
qed

lemma rhe_of_int: "round_half_even (of_int n) = n"
  by (simp add: round_half_even_def)

lemma rhe_mono: "y \<le> z \<Longrightarrow> round_half_even y \<le> round_half_even z"
proof -
  assume yz: "y \<le> z"
  have fl: "\<lfloor>y\<rfloor> \<le> \<lfloor>z\<rfloor>" using yz by (rule floor_mono)
  show ?thesis
  proof (cases "\<lfloor>y\<rfloor> = \<lfloor>z\<rfloor>")
    case True
    then show ?thesis using yz unfolding round_half_even_def Let_def by auto
  next
    case False
    then have "\<lfloor>y\<rfloor> + 1 \<le> \<lfloor>z\<rfloor>" using fl by simp
    moreover have "round_half_even y \<le> \<lfloor>y\<rfloor> + 1" unfolding round_half_even_def Let_def by auto
    moreover have "\<lfloor>z\<rfloor> \<le> round_half_even z" unfolding round_half_even_def Let_def by auto
    ultimately show ?thesis by linarith
  qed
qed

lemma round64_pos_eq:
  "0 < x \<Longrightarrow> round64 x = of_int (round_half_even (x / 2 powi (ilog2 x - 52))) * 2 powi (ilog2 x - 52)"
  by (simp add: round64_def Let_def)

lemma scaled_bounds:
  assumes "0 < x"
  shows "2 ^ 52 \<le> x / 2 powi (ilog2 x - 52)" "x / 2 powi (ilog2 x - 52) < 2 ^ 53"
proof -
  have s: "(0::rat) < 2 powi (ilog2 x - 52)" by simp
  have a: "(2::rat) ^ 52 * 2 powi (ilog2 x - 52) = 2 powi (ilog2 x)"
    using power_int_add[of "2::rat" 52 "ilog2 x - 52"] by simp
  have b: "(2::rat) ^ 53 * 2 powi (ilog2 x - 52) = 2 powi (ilog2 x + 1)"
    using power_int_add[of "2::rat" 53 "ilog2 x - 52"] by (simp add: add.commute)
  from ilog2_bounds[OF assms] have lo: "2 powi (ilog2 x) \<le> x" and hi: "x < 2 powi (ilog2 x + 1)"
    by auto
  show "2 ^ 52 \<le> x / 2 powi (ilog2 x - 52)"
    using lo s by (simp only: pos_le_divide_eq a)
  show "x / 2 powi (ilog2 x - 52) < 2 ^ 53"
    using hi s by (simp only: pos_divide_less_eq b)
qed

lemma rhe_scaled_bounds:
  assumes "0 < x"
  shows "2 ^ 52 \<le> round_half_even (x / 2 powi (ilog2 x - 52))"
        "round_half_even (x / 2 powi (ilog2 x - 52)) \<le> 2 ^ 53"
proof -
  have "round_half_even (of_int (2 ^ 52)) \<le> round_half_even (x / 2 powi (ilog2 x - 52))"
    by (rule rhe_mono) (use scaled_bounds(1)[OF assms] in simp)
  then show "2 ^ 52 \<le> round_half_even (x / 2 powi (ilog2 x - 52))"
    by (simp only: rhe_of_int)
  have "round_half_even (x / 2 powi (ilog2 x - 52)) \<le> round_half_even (of_int (2 ^ 53))"
    by (rule rhe_mono) (use scaled_bounds(2)[OF assms] in simp)
  then show "round_half_even (x / 2 powi (ilog2 x - 52)) \<le> 2 ^ 53"
    by (simp only: rhe_of_int)
qed

lemma round64_pos: "0 < x \<Longrightarrow> 0 < round64 x"
  using rhe_scaled_bounds(1)[of x] by (simp add: round64_pos_eq zero_less_mult_iff)

lemma round64_err:
  assumes "0 < x"
  shows "\<bar>round64 x - x\<bar> \<le> x / 2 ^ 53"
proof -
  define s :: rat where "s = 2 powi (ilog2 x - 52)"
  define m where "m = round_half_even (x / s)"
  have s: "0 < s" by (simp add: s_def)
  have r: "round64 x = of_int m * s" using assms by (simp add: round64_pos_eq m_def s_def)
  have "\<bar>of_int m - x / s\<bar> \<le> 1 / 2" unfolding m_def by (rule rhe_err)
  then have "\<bar>of_int m - x / s\<bar> * s \<le> 1 / 2 * s" using s by (intro mult_right_mono) auto
  moreover have "\<bar>of_int m - x / s\<bar> * s = \<bar>(of_int m - x / s) * s\<bar>"
    using s by (simp add: abs_mult)
  moreover have "(of_int m - x / s) * s = of_int m * s - x"
    using s by (simp add: left_diff_distrib)
  ultimately have e: "\<bar>round64 x - x\<bar> \<le> s / 2" by (simp add: r)
  have "2 ^ 52 \<le> x / s" unfolding s_def by (rule scaled_bounds[OF assms])
  then have "2 ^ 52 * s \<le> x" using s by (simp add: pos_le_divide_eq)
  then have "s / 2 \<le> x / 2 ^ 53" by simp
  with e show ?thesis by linarith
qed

lemma ilog2_mono:
  assumes "0 < x" "x \<le> y"
  shows "ilog2 x \<le> ilog2 y"
proof -
  have "(2::rat) powi (ilog2 x) \<le> x" using ilog2_bounds[OF assms(1)] by simp
  also have "x \<le> y" by fact
  also have "y < 2 powi (ilog2 y + 1)" using ilog2_bounds[of y] assms by simp
  finally have lt: "(2::rat) powi (ilog2 x) < 2 powi (ilog2 y + 1)" .
  show ?thesis
  proof (rule ccontr)
    assume "\<not> ilog2 x \<le> ilog2 y"
    then have "ilog2 y + 1 \<le> ilog2 x" by simp
    then have "(2::rat) powi (ilog2 y + 1) \<le> 2 powi (ilog2 x)"
      by (rule power_int_increasing) simp
    with lt show False by simp
  qed
qed

lemma round64_mono:
  assumes "0 < x" "x \<le> y"
  shows "round64 x \<le> round64 y"
proof -
  have y: "0 < y" using assms by simp
  define ex where "ex = ilog2 x - 52"
  define ey where "ey = ilog2 y - 52"
  have rx: "round64 x = of_int (round_half_even (x / 2 powi ex)) * 2 powi ex"
    using assms(1) by (simp add: round64_pos_eq ex_def)
  have ry: "round64 y = of_int (round_half_even (y / 2 powi ey)) * 2 powi ey"
    using y by (simp add: round64_pos_eq ey_def)
  have le: "ex \<le> ey" using ilog2_mono[OF assms] by (simp add: ex_def ey_def)
  show ?thesis
  proof (cases "ex = ey")
    case True
    have "x / 2 powi ey \<le> y / 2 powi ey" using assms(2) by (simp add: divide_right_mono)
    then have "round_half_even (x / 2 powi ey) \<le> round_half_even (y / 2 powi ey)"
      by (rule rhe_mono)
    then have "(of_int (round_half_even (x / 2 powi ey)) :: rat) \<le> of_int (round_half_even (y / 2 powi ey))"
      by (simp only: of_int_le_iff)
    then show ?thesis unfolding rx ry True by (intro mult_right_mono) auto
  next
    case False
    then have lt: "ex + 1 \<le> ey" using le by simp
    have "round_half_even (x / 2 powi ex) \<le> 2 ^ 53"
      unfolding ex_def by (rule rhe_scaled_bounds[OF assms(1)])
    then have "(of_int (round_half_even (x / 2 powi ex)) :: rat) \<le> of_int (2 ^ 53)"
      by (simp only: of_int_le_iff)
    then have "round64 x \<le> 2 ^ 53 * 2 powi ex" unfolding rx
      by (intro mult_right_mono) auto
    also have "\<dots> = 2 ^ 52 * 2 powi (ex + 1)"
      using power_int_add[of "2::rat" ex 1] by simp
    also have "\<dots> \<le> 2 ^ 52 * 2 powi ey"
      using power_int_increasing[OF lt, of "2::rat"] by simp
    also have "\<dots> \<le> round64 y"
    proof -
      have "2 ^ 52 \<le> round_half_even (y / 2 powi ey)"
        unfolding ey_def by (rule rhe_scaled_bounds[OF y])
      then have "(of_int (2 ^ 52) :: rat) \<le> of_int (round_half_even (y / 2 powi ey))"
        by (simp only: of_int_le_iff)
      then show ?thesis unfolding ry by (intro mult_right_mono) auto
    qed
    finally show ?thesis .
  qed
qed

lemma round64_exact:
  assumes m: "0 < m" "m \<le> 2 ^ 53" and x: "x = of_int m * 2 powi j"
  shows "round64 x = x"
proof -
  have xpos: "0 < x" using m by (simp add: x)
  define e where "e = ilog2 x - 52"
  have lo: "2 powi (e + 52) \<le> x" using ilog2_bounds[OF xpos] by (simp add: e_def)
  have p53: "(2::rat) powi (j + 53) = 2 ^ 53 * 2 powi j"
    using power_int_add[of "2::rat" j 53] by (simp add: mult.commute)
  have "(of_int m :: rat) \<le> of_int (2 ^ 53)" using m(2) by (simp only: of_int_le_iff)
  then have "of_int m * 2 powi j \<le> (2::rat) ^ 53 * 2 powi j"
    by (intro mult_right_mono) auto
  then have ub: "x \<le> 2 powi (j + 53)" by (simp only: x p53)
  have e_le: "e \<le> j + 1"
  proof (rule ccontr)
    assume "\<not> e \<le> j + 1"
    then have "j + 53 < e + 52" by simp
    then have "(2::rat) powi (j + 53) < 2 powi (e + 52)"
      by (rule power_int_strict_increasing) simp
    with lo ub show False by simp
  qed
  have "\<exists>n. x / 2 powi e = of_int n"
  proof (cases "e \<le> j")
    case True
    have "x / 2 powi e = of_int m * 2 powi (j - e)"
      by (simp add: x power_int_diff)
    also have "\<dots> = of_int (m * 2 ^ nat (j - e))"
      using True by (simp add: power_int_def)
    finally show ?thesis by blast
  next
    case False
    then have e: "e = j + 1" using e_le by simp
    have "(2::rat) powi (j + 53) \<le> of_int m * 2 powi j"
      using lo unfolding e x by (simp only: add.assoc) simp
    then have "(2::rat) ^ 53 * 2 powi j \<le> of_int m * 2 powi j"
      by (simp only: p53)
    then have "(2::rat) ^ 53 \<le> of_int m" by simp
    then have "(of_int (2 ^ 53) :: rat) \<le> of_int m" by simp
    then have "2 ^ 53 \<le> m" by (simp only: of_int_le_iff)
    with m have meq: "m = 2 ^ 53" by simp
    have "(2::rat) powi e = 2 * 2 powi j"
      using power_int_add[of "2::rat" j 1] by (simp add: e mult.commute)
    then have "x / 2 powi e = of_int (2 ^ 52)"
      by (simp add: x meq)
    then show ?thesis by blast
  qed
  then obtain n where n: "x / 2 powi e = of_int n" by blast
  have "round64 x = of_int n * 2 powi e"
    using xpos by (simp add: round64_pos_eq e_def[symmetric] n rhe_of_int)
  also have "\<dots> = x / 2 powi e * 2 powi e" by (simp only: n)
  also have "\<dots> = x" by simp
  finally show ?thesis .
qed

lemma round64_idem:
  assumes "0 < x"
  shows "round64 (round64 x) = round64 x"
  by (rule round64_exact[where m = "round_half_even (x / 2 powi (ilog2 x - 52))" and j = "ilog2 x - 52"])
     (use rhe_scaled_bounds[OF assms] round64_pos_eq[OF assms] in auto)

lemma float64_exact:
  assumes "0 < n" "n \<le> 2 ^ 53"
  shows "float64 n = of_int n"
  unfolding float64_def
  by (rule round64_exact[where m = n and j = 0]) (use assms in auto)

lemma float_above_round:
  assumes "0 < f" "round64 f = f" "round64 x < f"
  shows "x \<le> f"
proof (rule ccontr)
  assume "\<not> x \<le> f"
  then have "f \<le> x" by simp
  from round64_mono[OF assms(1) this] assms(2,3) show False by simp
qed

lemma fdiv_pos: "0 < a \<Longrightarrow> 0 < b \<Longrightarrow> 0 < fdiv a b"
  by (simp add: fdiv_def round64_pos)

lemma fdiv_idem: "0 < a \<Longrightarrow> 0 < b \<Longrightarrow> round64 (fdiv a b) = fdiv a b"
  by (simp add: fdiv_def round64_idem)

lemma float64_pos: "0 < n \<Longrightarrow> 0 < float64 n"
  by (simp add: float64_def round64_pos)

lemma round64_upper: "0 < x \<Longrightarrow> round64 x \<le> x + x / 2 ^ 53"
  using round64_err[of x] by linarith


lemma div_by_wider:
  assumes W: "0 < W" "W \<le> 2 ^ 53" and H: "0 < H" "H \<le> 2 ^ 53"
    and ar: "0 < ar" "round64 ar = ar" "fdiv (float64 W) (float64 H) < ar"
  shows "0 \<le> int_of_float64 (fdiv (float64 W) ar)" "int_of_float64 (fdiv (float64 W) ar) \<le> H"
proof -
  have fw: "float64 W = of_int W" and fh: "float64 H = of_int H"
    using W H by (simp_all add: float64_exact)
  have Wp: "(0::rat) < of_int W" and Hp: "(0::rat) < of_int H" using W H by simp_all
  have "round64 (of_int W / of_int H) < ar" using ar(3) by (simp add: fdiv_def fw fh)
  from float_above_round[OF ar(1,2) this] have "of_int W / of_int H \<le> ar" .
  then have "of_int W \<le> ar * of_int H" using Hp by (simp add: pos_divide_le_eq)
  then have q: "of_int W / ar \<le> of_int H" using ar(1) by (simp add: pos_divide_le_eq mult.commute)
  have qpos: "0 < of_int W / ar" using Wp ar(1) by simp
  have "round64 (of_int W / ar) \<le> round64 (of_int H)" by (rule round64_mono[OF qpos q])
  also have "\<dots> = of_int H" using fh by (simp add: float64_def)
  finally have le: "fdiv (float64 W) ar \<le> of_int H" by (simp add: fdiv_def fw)
  have pos: "0 < fdiv (float64 W) ar" using qpos by (simp add: fdiv_def fw round64_pos)
  show "0 \<le> int_of_float64 (fdiv (float64 W) ar)" using pos by (simp add: int_of_float64_def)
  have "\<lfloor>fdiv (float64 W) ar\<rfloor> \<le> \<lfloor>(of_int H :: rat)\<rfloor>" using le by (rule floor_mono)
  then show "int_of_float64 (fdiv (float64 W) ar) \<le> H" using pos by (simp add: int_of_float64_def)
qed

lemma mul_by_narrower:
  assumes W: "0 < W" "W < 2 ^ 31" and H: "0 < H" "H \<le> 2 ^ 53"
    and ar: "0 < ar" "ar \<le> fdiv (float64 W) (float64 H)"
  shows "0 \<le> int_of_float64 (fmul (float64 H) ar)" "int_of_float64 (fmul (float64 H) ar) \<le> W"
proof -
  have fw: "float64 W = of_int W" and fh: "float64 H = of_int H"
    using W H by (simp_all add: float64_exact)
  have Wp: "(0::rat) < of_int W" and Hp: "(0::rat) < of_int H" using W H by simp_all
  define w :: rat where "w = of_int W"
  define u :: rat where "u = 1 / 2 ^ 53"
  have wpos: "0 < w" and wlt: "w < 2 ^ 31" using W by (simp_all add: w_def)
  have "fdiv (float64 W) (float64 H) \<le> w / of_int H + w / of_int H / 2 ^ 53"
    unfolding fdiv_def fw fh w_def using Wp Hp by (intro round64_upper) simp
  then have "ar \<le> w / of_int H + w / of_int H / 2 ^ 53" using ar(2) by simp
  then have "of_int H * ar \<le> of_int H * (w / of_int H + w / of_int H / 2 ^ 53)"
    using Hp by (intro mult_left_mono) auto
  also have "\<dots> = w + w / 2 ^ 53" using Hp by (simp add: distrib_left)
  finally have z: "of_int H * ar \<le> w + w / 2 ^ 53" .
  have zpos: "0 < of_int H * ar" using Hp ar(1) by simp
  have "round64 (of_int H * ar) \<le> of_int H * ar + of_int H * ar / 2 ^ 53"
    by (rule round64_upper[OF zpos])
  also have "\<dots> \<le> (w + w / 2 ^ 53) + (w + w / 2 ^ 53) / 2 ^ 53"
    using z by (intro add_mono divide_right_mono) auto
  also have "\<dots> < w + 1" using wpos wlt by simp
  finally have lt: "fmul (float64 H) ar < of_int W + 1" by (simp add: fmul_def fh w_def)
  have pos: "0 < fmul (float64 H) ar" using zpos by (simp add: fmul_def fh round64_pos)
  show "0 \<le> int_of_float64 (fmul (float64 H) ar)" using pos by (simp add: int_of_float64_def)
  have "fmul (float64 H) ar < of_int (W + 1)" using lt by simp
  then have "\<lfloor>fmul (float64 H) ar\<rfloor> < W + 1" by (simp only: floor_less_iff)
  then show "int_of_float64 (fmul (float64 H) ar) \<le> W" using pos by (simp add: int_of_float64_def)
qed

lemma quo2_nonneg: "0 \<le> d \<Longrightarrow> 0 \<le> quo d 2 \<and> quo d 2 \<le> d"
  by (cases "d = 0") (auto simp: quo_def)

lemma offset_range:
  assumes "0 \<le> d"
  shows "0 \<le> (if a = c then quo d 2 else if a = b then d else 0)"
        "(if a = c then quo d 2 else if a = b then d else 0) \<le> d"
  using quo2_nonneg[OF assms] assms by auto

section \<open>The fit-inside resolver\<close>

text \<open>
  C1. For an original of positive width and height (below \<open>2 ^ 31\<close>) and every requested
  width > 0 and height > 0, with any horizontal and vertical alignment, the rectangle
  computed by \<open>touchOriginalFromInsideSourceRect\<close> lies inside the original's bounds
  \<open>(0,0)-(originalWidth,originalHeight)\<close>: it is \<open>In\<close> them, and its corners are ordered
  and within the bounds coordinate by coordinate.
\<close>

theorem fit_inside_contained:
  assumes vs: "Versions self = v0 # vs"
    and W: "0 < Width v0" "Width v0 < 2 ^ 31"
    and H: "0 < Height v0" "Height v0 < 2 ^ 31"
    and wh: "0 < width" "0 < height"
  shows "\<exists>r. touchOriginalFromInsideSourceRect self width height horAlign verAlign = Inr r \<and>
             In r (Rect 0 0 (Width v0) (Height v0)) \<and>
             0 \<le> X (MinR r) \<and> X (MinR r) \<le> X (MaxR r) \<and> X (MaxR r) \<le> Width v0 \<and>
             0 \<le> Y (MinR r) \<and> Y (MinR r) \<le> Y (MaxR r) \<and> Y (MaxR r) \<le> Height v0"
proof -
  define ar where "ar = fdiv (float64 width) (float64 height)"
  have fpos: "0 < float64 width" "0 < float64 height" using wh by (simp_all add: float64_pos)
  have ar: "0 < ar" "round64 ar = ar"
    unfolding ar_def using fpos by (simp_all add: fdiv_pos fdiv_idem)
  have W53: "Width v0 \<le> 2 ^ 53" and H53: "Height v0 \<le> 2 ^ 53" using W H by simp_all
  show ?thesis
  proof (cases "AspectRatio v0 < ar")
    case True
    define ry where "ry = int_of_float64 (fdiv (float64 (Width v0)) ar)"
    define oy where "oy = (if verAlign = VerCenter then quo (Height v0 - ry) 2
                           else if verAlign = Bottom then Height v0 - ry else 0)"
    have b: "0 \<le> ry" "ry \<le> Height v0"
      unfolding ry_def
      using div_by_wider[OF W(1) W53 H(1) H53 ar] True by (simp_all add: AspectRatio_def)
    have d: "0 \<le> Height v0 - ry" using b by simp
    have o: "0 \<le> oy" "oy \<le> Height v0 - ry"
      unfolding oy_def by (rule offset_range[OF d])+
    have r: "touchOriginalFromInsideSourceRect self width height horAlign verAlign =
          Inr \<lparr>MinR = \<lparr>X = 0, Y = oy\<rparr>, MaxR = \<lparr>X = Width v0, Y = ry + oy\<rparr>\<rparr>"
      using True
      by (simp add: touchOriginalFromInsideSourceRect_def vs ar_def[symmetric] ry_def[symmetric]
          oy_def[symmetric] Let_def Add_def ZR_def ZP_def)
    show ?thesis unfolding r using b o W H
      by (simp add: In_def Empty_def Rect_def)
  next
    case False
    define rx where "rx = int_of_float64 (fmul (float64 (Height v0)) ar)"
    define ox where "ox = (if horAlign = HorCenter then quo (Width v0 - rx) 2
                           else if horAlign = Right then Width v0 - rx else 0)"
    have le: "ar \<le> fdiv (float64 (Width v0)) (float64 (Height v0))"
      using False by (simp add: AspectRatio_def)
    have b: "0 \<le> rx" "rx \<le> Width v0"
      unfolding rx_def using mul_by_narrower[OF W H(1) H53 ar(1) le] by simp_all
    have d: "0 \<le> Width v0 - rx" using b by simp
    have o: "0 \<le> ox" "ox \<le> Width v0 - rx"
      unfolding ox_def by (rule offset_range[OF d])+
    have r: "touchOriginalFromInsideSourceRect self width height horAlign verAlign =
          Inr \<lparr>MinR = \<lparr>X = ox, Y = 0\<rparr>, MaxR = \<lparr>X = rx + ox, Y = Height v0\<rparr>\<rparr>"
      using False
      by (simp add: touchOriginalFromInsideSourceRect_def vs ar_def[symmetric] rx_def[symmetric]
          ox_def[symmetric] Let_def Add_def ZR_def ZP_def)
    show ?thesis unfolding r using b o W H
      by (simp add: In_def Empty_def Rect_def)
  qed
qed

theorem fit_inside_contained_witness:
  "\<exists>r. touchOriginalFromInsideSourceRect photo 400 400 HorCenter VerCenter = Inr r \<and>
       In r (Rect 0 0 800 600) \<and>
       0 \<le> X (MinR r) \<and> X (MinR r) \<le> X (MaxR r) \<and> X (MaxR r) \<le> 800 \<and>
       0 \<le> Y (MinR r) \<and> Y (MinR r) \<le> Y (MaxR r) \<and> Y (MaxR r) \<le> 600"
  using fit_inside_contained[of photo original800x600 "[]"
          400 400 HorCenter VerCenter]
  by (simp add: photo_def original800x600_def newImageVersion_def)

text \<open>
  C9. The fit-inside rectangles computed with \<open>horAlign = Left\<close> and \<open>horAlign = Right\<close>
  for the same width, height and vertical alignment have the same width and the same
  height, and their horizontal offsets sum to the original's width minus the width of the
  rectangle. This holds for every request, in particular for an original that is wider in
  aspect than the request, where the horizontal alignment decides the offset.
\<close>

theorem align_left_right_symmetry:
  assumes vs: "Versions self = v0 # vs"
  shows "\<exists>rl rr.
           touchOriginalFromInsideSourceRect self width height Left verAlign = Inr rl \<and>
           touchOriginalFromInsideSourceRect self width height Right verAlign = Inr rr \<and>
           Dx rl = Dx rr \<and> Dy rl = Dy rr \<and>
           X (MinR rl) + X (MinR rr) = Width v0 - Dx rl"
  by (simp add: touchOriginalFromInsideSourceRect_def vs Let_def Add_def ZR_def ZP_def Dx_def Dy_def
      Left_def Right_def HorCenter_def)

theorem align_left_right_symmetry_witness:
  "\<exists>rl rr.
      touchOriginalFromInsideSourceRect photo 400 400 Left VerCenter = Inr rl \<and>
      touchOriginalFromInsideSourceRect photo 400 400 Right VerCenter = Inr rr \<and>
      Dx rl = Dx rr \<and> Dy rl = Dy rr \<and> X (MinR rl) + X (MinR rr) = 800 - Dx rl"
  using align_left_right_symmetry[of photo original800x600 "[]"
          400 400 VerCenter]
  by (simp add: photo_def original800x600_def newImageVersion_def)

section \<open>The cover-from-outside resolver\<close>









text \<open>
  When the request has the aspect ratio of the original, the rounding of the two float64
  divisions can leave the rectangle one pixel short of the original: a 110 x 100 original
  asked for 110 x 100 gets the rectangle \<open>(0,0)-(110,99)\<close>.
\<close>

lemma cover_outside_same_ratio_short:
  "touchOriginalFromOutsideSourceRect
     \<lparr>ID = [], Description = [], Link = [],
      Versions = [newImageVersion ''b.png'' ''image/png'' (Rect 0 0 110 100) 110 100 False]\<rparr>
     110 100 HorCenter VerCenter
   = Inr \<lparr>MinR = \<lparr>X = 0, Y = 0\<rparr>, MaxR = \<lparr>X = 110, Y = 99\<rparr>\<rparr>"
  by code_simp



section \<open>The search loop\<close>

lemma searchVersions_None:
  "searchVersions sr w h c g vs k = None \<longleftrightarrow> (\<forall>v \<in> set vs. \<not> matchVersion v sr w h c g)"
  by (induction vs arbitrary: k) auto

lemma searchVersions_Some:
  "searchVersions sr w h c g vs k = Some i \<longleftrightarrow>
     (k \<le> i \<and> i - k < length vs \<and> matchVersion (vs ! (i - k)) sr w h c g \<and>
      (\<forall>j < i - k. \<not> matchVersion (vs ! j) sr w h c g))"
proof (induction vs arbitrary: k)
  case Nil
  then show ?case by simp
next
  case (Cons v vs)
  show ?case
  proof (cases "matchVersion v sr w h c g")
    case True
    then show ?thesis by (auto simp: nth_Cons split: nat.splits) 
  next
    case False
    have "searchVersions sr w h c g (v # vs) k = Some i \<longleftrightarrow>
          searchVersions sr w h c g vs (Suc k) = Some i" using False by simp
    also have "\<dots> \<longleftrightarrow> (Suc k \<le> i \<and> i - Suc k < length vs \<and>
        matchVersion (vs ! (i - Suc k)) sr w h c g \<and>
        (\<forall>j < i - Suc k. \<not> matchVersion (vs ! j) sr w h c g))" by (rule Cons.IH)
    also have "\<dots> \<longleftrightarrow> (k \<le> i \<and> i - k < length (v # vs) \<and>
        matchVersion ((v # vs) ! (i - k)) sr w h c g \<and>
        (\<forall>j < i - k. \<not> matchVersion ((v # vs) ! j) sr w h c g))"
    proof (cases "i - k")
      case 0
      then show ?thesis using False by auto
    next
      case (Suc n)
      then have ik: "i - Suc k = n" "Suc k \<le> i" "k \<le> i" by simp_all
      have all: "(\<forall>j < Suc n. \<not> matchVersion ((v # vs) ! j) sr w h c g) \<longleftrightarrow>
                 (\<forall>j < n. \<not> matchVersion (vs ! j) sr w h c g)"
        using False by (auto simp: nth_Cons less_Suc_eq_0_disj split: nat.splits)
      show ?thesis unfolding Suc ik(1) all using ik(2,3) by simp
    qed
    finally show ?thesis .
  qed
qed

lemma searchVersions_hit:
  "searchVersions sr w h c g vs 0 = Some i \<longleftrightarrow>
     (i < length vs \<and> matchVersion (vs ! i) sr w h c g \<and>
      (\<forall>j < i. \<not> matchVersion (vs ! j) sr w h c g))"
  using searchVersions_Some[of sr w h c g vs 0 i] by simp

lemma SourceRectVersion_hit:
  assumes "Versions self = v0 # vs"
    and "searchVersions sr w h c (Grayscale v0 \<or> gs) (Versions self) 0 = Some i"
  shows "SourceRectVersion env self sr w h gs c = \<lparr>result = Inr i, image = self, trace = []\<rparr>"
  using assms(2) unfolding SourceRectVersion_def assms(1)
  by (cases "Grayscale v0") (simp_all add: Let_def)

lemma SourceRectVersion_miss_trace:
  assumes "Versions self = v0 # vs"
    and "searchVersions sr w h c (Grayscale v0 \<or> gs) (Versions self) 0 = None"
  shows "trace (SourceRectVersion env self sr w h gs c) \<noteq> []"
  using assms(2) unfolding SourceRectVersion_def assms(1)
  by (cases "Grayscale v0") (simp_all add: Let_def split: sum.splits option.splits)

section \<open>The version cache\<close>

lemma forced_grayscale: "(if Grayscale v0 then True else gs) = (Grayscale v0 \<or> gs)"
  by simp

lemma SourceRectVersion_miss:
  assumes vs: "Versions self = v0 # vs"
    and miss: "searchVersions sr w h c (Grayscale v0 \<or> gs) (Versions self) 0 = None"
    and load: "LoadImage env v0 = Inr orig"
    and new: "new = newImageVersion (Filename v0) (ContentType v0) sr w h (Grayscale v0 \<or> gs)"
    and pic: "pic = versionImage env v0 orig sr w h (Grayscale v0 \<or> gs) c"
    and calls: "calls = CallLoadImage v0 #
                  (if In sr (SourceRect v0) then [CallResizeImage orig sr w h] else [])"
    and self': "self' = self\<lparr>Versions := Versions self @ [new]\<rparr>"
  shows "SourceRectVersion env self sr w h gs c =
     (case VersionSaveImage env new pic of
        Some err \<Rightarrow> \<lparr>result = Inl err, image = self',
                     trace = calls @ [CallVersionSaveImage new pic]\<rparr>
      | None \<Rightarrow>
          (case BackendSaveImage env self' of
             Some err \<Rightarrow> \<lparr>result = Inl err, image = self',
                          trace = calls @ [CallVersionSaveImage new pic, CallBackendSaveImage self']\<rparr>
           | None \<Rightarrow> \<lparr>result = Inr (length (Versions self)), image = self',
                       trace = calls @ [CallVersionSaveImage new pic, CallBackendSaveImage self']\<rparr>))"
proof -
  have m: "searchVersions sr w h c (Grayscale v0 \<or> gs) (v0 # vs) 0 = None"
    using miss by (simp only: vs)
  show ?thesis
    unfolding SourceRectVersion_def vs list.case forced_grayscale Let_def m option.case load sum.case
    by (simp add: new pic calls self' vs split: option.splits)
qed

lemma SourceRectVersion_load_fails:
  assumes vs: "Versions self = v0 # vs"
    and miss: "searchVersions sr w h c (Grayscale v0 \<or> gs) (Versions self) 0 = None"
    and load: "LoadImage env v0 = Inl err"
  shows "SourceRectVersion env self sr w h gs c =
           \<lparr>result = Inl err, image = self, trace = [CallLoadImage v0]\<rparr>"
proof -
  have m: "searchVersions sr w h c (Grayscale v0 \<or> gs) (v0 # vs) 0 = None"
    using miss by (simp only: vs)
  show ?thesis
    unfolding SourceRectVersion_def vs list.case forced_grayscale Let_def m option.case load sum.case
    by simp
qed

text \<open>
  C5. The lookup of \<open>SourceRectVersion\<close> returns the version at index \<open>i\<close> as a cache hit
  (nil error, no change, no call to a collaborator) if and only if the five key fields
  of that version (source rectangle, width, height, fill colour, grayscale) are equal to
  the request, the grayscale flag being the requested one forced to true by a grayscale
  original, and no version at a smaller index has all five equal: equality is exact, the
  scan starts at index 0, and the first match is the one returned.
\<close>

theorem cache_lookup_first_exact_match:
  assumes vs: "Versions self = v0 # vs"
  shows "SourceRectVersion env self sr w h gs c = \<lparr>result = Inr i, image = self, trace = []\<rparr> \<longleftrightarrow>
     (i < length (Versions self) \<and>
      (SourceRect (Versions self ! i) = sr \<and> Width (Versions self ! i) = w \<and>
       Height (Versions self ! i) = h \<and> OutsideColor (Versions self ! i) = c \<and>
       Grayscale (Versions self ! i) = (Grayscale v0 \<or> gs)) \<and>
      (\<forall>j < i. \<not> (SourceRect (Versions self ! j) = sr \<and> Width (Versions self ! j) = w \<and>
                   Height (Versions self ! j) = h \<and> OutsideColor (Versions self ! j) = c \<and>
                   Grayscale (Versions self ! j) = (Grayscale v0 \<or> gs))))"
    (is "?L \<longleftrightarrow> ?R")
proof -
  have R: "?R \<longleftrightarrow> searchVersions sr w h c (Grayscale v0 \<or> gs) (Versions self) 0 = Some i"
    unfolding searchVersions_hit by (simp add: matchVersion_def EqualsColor_def)
  show ?thesis
  proof (cases "searchVersions sr w h c (Grayscale v0 \<or> gs) (Versions self) 0")
    case None
    from SourceRectVersion_miss_trace[OF vs None, of env]
    have "\<not> ?L" by auto
    then show ?thesis using None R by simp
  next
    case (Some k)
    from SourceRectVersion_hit[OF vs Some, of env]
    have "?L \<longleftrightarrow> k = i" by simp
    then show ?thesis using Some R by auto
  qed
qed

theorem cache_lookup_first_exact_match_witness:
  "SourceRectVersion storageOK photoWithSquare (Rect 100 0 700 600) 400 400 False RGBA_zero =
     \<lparr>result = Inr 1, image = photoWithSquare, trace = []\<rparr>"
  using cache_lookup_first_exact_match[of photoWithSquare original800x600
          "[newImageVersion ''a.png'' ''image/png'' (Rect 100 0 700 600) 400 400 False]"
          storageOK "Rect 100 0 700 600" 400 400 False RGBA_zero 1]
  by (simp add: photoWithSquare_def photo_def original800x600_def newImageVersion_def)

text \<open>
  C10. Whenever some version of the image matches the request exactly,
  \<open>SourceRectVersion\<close> returns a matching existing version with a nil error, the image
  (its list of versions included) is the same after the call as before, and no call to a
  collaborator is made: nothing is loaded, resampled or saved.
\<close>

theorem cache_hit_changes_nothing:
  assumes vs: "Versions self = v0 # vs"
    and m: "\<exists>v \<in> set (Versions self). matchVersion v sr w h c (Grayscale v0 \<or> gs)"
  shows "\<exists>i < length (Versions self).
           matchVersion (Versions self ! i) sr w h c (Grayscale v0 \<or> gs) \<and>
           SourceRectVersion env self sr w h gs c = \<lparr>result = Inr i, image = self, trace = []\<rparr>"
proof -
  from m have "searchVersions sr w h c (Grayscale v0 \<or> gs) (Versions self) 0 \<noteq> None"
    by (simp add: searchVersions_None)
  then obtain i where i: "searchVersions sr w h c (Grayscale v0 \<or> gs) (Versions self) 0 = Some i"
    by blast
  then have "i < length (Versions self)" "matchVersion (Versions self ! i) sr w h c (Grayscale v0 \<or> gs)"
    by (simp_all add: searchVersions_hit)
  with SourceRectVersion_hit[OF vs i, of env] show ?thesis by blast
qed

theorem cache_hit_changes_nothing_witness:
  "\<exists>i < length (Versions photoWithSquare).
      matchVersion (Versions photoWithSquare ! i) (Rect 100 0 700 600) 400 400 RGBA_zero
        (Grayscale original800x600 \<or> False) \<and>
      SourceRectVersion storageFull photoWithSquare (Rect 100 0 700 600) 400 400 False RGBA_zero =
        \<lparr>result = Inr i, image = photoWithSquare, trace = []\<rparr>"
  using cache_hit_changes_nothing[of photoWithSquare original800x600
          "[newImageVersion ''a.png'' ''image/png'' (Rect 100 0 700 600) 400 400 False]"
          "Rect 100 0 700 600" 400 400 RGBA_zero False storageFull]
  by (simp add: photoWithSquare_def photo_def original800x600_def newImageVersion_def
      matchVersion_def EqualsColor_def)

text \<open>
  C4. For an image whose original is grayscale, a call of \<open>SourceRectVersion\<close> with any
  value of the grayscale argument is the call with \<open>grayscale = true\<close>; the version it
  returns is grayscale, and so is a version it appends.
\<close>

theorem grayscale_original_forces_grayscale:
  assumes vs: "Versions self = v0 # vs" and g: "Grayscale v0"
  shows "SourceRectVersion env self sr w h gs c = SourceRectVersion env self sr w h True c \<and>
         (\<forall>i. result (SourceRectVersion env self sr w h gs c) = Inr i \<longrightarrow>
              i < length (Versions (image (SourceRectVersion env self sr w h gs c))) \<and>
              Grayscale (Versions (image (SourceRectVersion env self sr w h gs c)) ! i)) \<and>
         (\<forall>v. Versions (image (SourceRectVersion env self sr w h gs c)) = Versions self @ [v]
              \<longrightarrow> Grayscale v)"
proof (intro conjI)
  show "SourceRectVersion env self sr w h gs c = SourceRectVersion env self sr w h True c"
    using g by (simp add: SourceRectVersion_def vs)
  have G: "(Grayscale v0 \<or> gs) = True" using g by simp
  show "\<forall>i. result (SourceRectVersion env self sr w h gs c) = Inr i \<longrightarrow>
              i < length (Versions (image (SourceRectVersion env self sr w h gs c))) \<and>
              Grayscale (Versions (image (SourceRectVersion env self sr w h gs c)) ! i)"
  proof (cases "searchVersions sr w h c (Grayscale v0 \<or> gs) (Versions self) 0")
    case (Some k)
    then have "k < length (Versions self)" "Grayscale (Versions self ! k)"
      by (simp_all add: searchVersions_hit matchVersion_def G)
    then show ?thesis by (simp add: SourceRectVersion_hit[OF vs Some])
  next
    case None
    show ?thesis
    proof (cases "LoadImage env v0")
      case (Inl err)
      show ?thesis by (simp add: SourceRectVersion_load_fails[OF vs None Inl])
    next
      case (Inr orig)
      show ?thesis
        by (simp add: SourceRectVersion_miss[OF vs None Inr refl refl refl refl] G
            newImageVersion_def split: option.splits)
    qed
  qed
  show "\<forall>v. Versions (image (SourceRectVersion env self sr w h gs c)) = Versions self @ [v]
              \<longrightarrow> Grayscale v"
  proof (cases "searchVersions sr w h c (Grayscale v0 \<or> gs) (Versions self) 0")
    case (Some k)
    show ?thesis by (simp add: SourceRectVersion_hit[OF vs Some])
  next
    case None
    show ?thesis
    proof (cases "LoadImage env v0")
      case (Inl err)
      show ?thesis by (simp add: SourceRectVersion_load_fails[OF vs None Inl])
    next
      case (Inr orig)
      show ?thesis
        by (simp add: SourceRectVersion_miss[OF vs None Inr refl refl refl refl] G
            newImageVersion_def split: option.splits)
    qed
  qed
qed

theorem grayscale_original_forces_grayscale_witness:
  "SourceRectVersion storageOK grayPhoto (Rect 100 0 700 600) 400 400 False RGBA_zero =
     SourceRectVersion storageOK grayPhoto (Rect 100 0 700 600) 400 400 True RGBA_zero \<and>
   result (SourceRectVersion storageOK grayPhoto (Rect 100 0 700 600) 400 400 False RGBA_zero) = Inr 1 \<and>
   Grayscale (Versions (image (SourceRectVersion storageOK grayPhoto (Rect 100 0 700 600) 400 400
                False RGBA_zero)) ! 1)"
proof -
  have vs: "Versions grayPhoto =
      newImageVersion ''g.png'' ''image/png'' (Rect 0 0 800 600) 800 600 True # []"
    by (simp add: grayPhoto_def)
  have g: "Grayscale (newImageVersion ''g.png'' ''image/png'' (Rect 0 0 800 600) 800 600 True)"
    by (simp add: photo_def original800x600_def newImageVersion_def)
  have r: "result (SourceRectVersion storageOK grayPhoto (Rect 100 0 700 600) 400 400 False RGBA_zero)
             = Inr 1"
    by (simp add: SourceRectVersion_def grayPhoto_def storageOK_def newImageVersion_def Let_def
        matchVersion_def Rect_def)
  from grayscale_original_forces_grayscale[OF vs g, of storageOK "Rect 100 0 700 600" 400 400 False
        RGBA_zero] r
  show ?thesis by blast
qed

section \<open>The materializer\<close>

lemma versionImage_canvas:
  assumes out: "\<not> In sr (SourceRect v0)" and w: "0 \<le> w" and h: "0 \<le> h"
  shows "ColorModel (versionImage env v0 orig sr w h g c) = (if g then GrayModel else RGBAModel)"
    "Bounds (versionImage env v0 orig sr w h g c) = \<lparr>MinR = \<lparr>X = 0, Y = 0\<rparr>, MaxR = \<lparr>X = w, Y = h\<rparr>\<rparr>"
    "\<And>x y. 0 \<le> x \<and> x < w \<and> 0 \<le> y \<and> y < h \<Longrightarrow>
       At (versionImage env v0 orig sr w h g c) x y = Convert env (if g then GrayModel else RGBAModel) c"
  using assms
  by (simp_all add: versionImage_def Let_def NewGray_def NewRGBA_def DrawUniformSrc_def Rect_def
      PointIn_def)

text \<open>
  C6. On a cache miss with the original loaded, for a non-negative output size: if the
  source rectangle is not \<open>In\<close> the original's rectangle, the picture handed to
  \<open>version.SaveImage\<close> is a buffer with bounds \<open>(0,0)-(width,height)\<close>, a gray one if
  grayscale is requested or forced and an RGBA one otherwise, each pixel of which is the
  fill colour converted to the buffer's colour model, and the resampling primitive is not
  called; if the source rectangle is \<open>In\<close> the original's rectangle, the resampling
  primitive is called on the original and the source rectangle, and its result is the
  picture saved.
\<close>

theorem materialize_canvas_or_resize:
  assumes vs: "Versions self = v0 # vs"
    and miss: "\<forall>v \<in> set (Versions self). \<not> matchVersion v sr w h c (Grayscale v0 \<or> gs)"
    and load: "LoadImage env v0 = Inr orig"
    and w: "0 \<le> w" and h: "0 \<le> h"
  shows "\<exists>ver rest. (rest = [] \<or> (\<exists>im. rest = [CallBackendSaveImage im])) \<and>
     (if In sr (SourceRect v0)
      then trace (SourceRectVersion env self sr w h gs c) =
             CallLoadImage v0 # CallResizeImage orig sr w h #
             CallVersionSaveImage ver (ResizeImage env orig sr w h) # rest
      else \<exists>pic. trace (SourceRectVersion env self sr w h gs c) =
             CallLoadImage v0 # CallVersionSaveImage ver pic # rest \<and>
           ColorModel pic = (if Grayscale v0 \<or> gs then GrayModel else RGBAModel) \<and>
           Bounds pic = \<lparr>MinR = \<lparr>X = 0, Y = 0\<rparr>, MaxR = \<lparr>X = w, Y = h\<rparr>\<rparr> \<and>
           (\<forall>x y. 0 \<le> x \<and> x < w \<and> 0 \<le> y \<and> y < h \<longrightarrow>
                  At pic x y = Convert env (ColorModel pic) c))"
proof -
  have none: "searchVersions sr w h c (Grayscale v0 \<or> gs) (Versions self) 0 = None"
    using miss by (simp add: searchVersions_None)
  define new where "new = newImageVersion (Filename v0) (ContentType v0) sr w h (Grayscale v0 \<or> gs)"
  define pic where "pic = versionImage env v0 orig sr w h (Grayscale v0 \<or> gs) c"
  define self' where "self' = self\<lparr>Versions := Versions self @ [new]\<rparr>"
  define rest where "rest = (case VersionSaveImage env new pic of Some err \<Rightarrow> []
                               | None \<Rightarrow> [CallBackendSaveImage self'])"
  have tr: "trace (SourceRectVersion env self sr w h gs c) =
      CallLoadImage v0 # (if In sr (SourceRect v0) then [CallResizeImage orig sr w h] else []) @
      CallVersionSaveImage new pic # rest"
    unfolding SourceRectVersion_miss[OF vs none load new_def pic_def refl self'_def] rest_def
    by (simp split: option.splits)
  have rest: "rest = [] \<or> (\<exists>im. rest = [CallBackendSaveImage im])"
    by (simp add: rest_def split: option.splits)
  show ?thesis
  proof (cases "In sr (SourceRect v0)")
    case True
    have "pic = ResizeImage env orig sr w h" using True by (simp add: pic_def versionImage_def)
    then show ?thesis using True tr rest by auto
  next
    case False
    note c = versionImage_canvas[OF False w h, where env = env and orig = orig and g = "Grayscale v0 \<or> gs" and c = c, folded pic_def]
    have "trace (SourceRectVersion env self sr w h gs c) =
             CallLoadImage v0 # CallVersionSaveImage new pic # rest \<and>
           ColorModel pic = (if Grayscale v0 \<or> gs then GrayModel else RGBAModel) \<and>
           Bounds pic = \<lparr>MinR = \<lparr>X = 0, Y = 0\<rparr>, MaxR = \<lparr>X = w, Y = h\<rparr>\<rparr> \<and>
           (\<forall>x y. 0 \<le> x \<and> x < w \<and> 0 \<le> y \<and> y < h \<longrightarrow>
                  At pic x y = Convert env (ColorModel pic) c)"
      using False tr c by simp
    then show ?thesis using False rest by (simp only: if_False) blast
  qed
qed

theorem materialize_canvas_or_resize_witness:
  "\<exists>ver rest. (rest = [] \<or> (\<exists>im. rest = [CallBackendSaveImage im])) \<and>
     (\<exists>pic. trace (SourceRectVersion storageOK photo (Rect 0 (- 100) 800 700) 400 400 False
                     (RGBA 255 0 0 255)) =
             CallLoadImage original800x600 # CallVersionSaveImage ver pic # rest \<and>
           ColorModel pic = RGBAModel \<and>
           Bounds pic = \<lparr>MinR = \<lparr>X = 0, Y = 0\<rparr>, MaxR = \<lparr>X = 400, Y = 400\<rparr>\<rparr> \<and>
           (\<forall>x y. 0 \<le> x \<and> x < 400 \<and> 0 \<le> y \<and> y < 400 \<longrightarrow>
                  At pic x y = Convert storageOK (ColorModel pic) (RGBA 255 0 0 255)))"
proof -
  have vs: "Versions photo = original800x600 # []" by (simp add: photo_def)
  have miss: "\<forall>v \<in> set (Versions photo). \<not> matchVersion v (Rect 0 (- 100) 800 700) 400 400
                 (RGBA 255 0 0 255) (Grayscale original800x600 \<or> False)"
    by (simp add: photo_def original800x600_def newImageVersion_def matchVersion_def)
  have load: "LoadImage storageOK original800x600 = Inr (NewRGBA (Rect 0 0 800 600))"
    by (simp add: storageOK_def)
  have out: "\<not> In (Rect 0 (- 100) 800 700) (SourceRect original800x600)"
    by (simp add: original800x600_def newImageVersion_def In_def Empty_def Rect_def)
  have g: "\<not> (Grayscale original800x600 \<or> False)"
    by (simp add: original800x600_def newImageVersion_def)
  have nonneg: "(0::int) \<le> 400" by simp
  from materialize_canvas_or_resize[OF vs miss load nonneg nonneg] out g
  show ?thesis by simp
qed

text \<open>
  C7. On a cache miss with the original loaded, if saving the bytes of the new version
  fails, or saving the bytes succeeds and saving the image fails, \<open>SourceRectVersion\<close>
  returns that error, and the list of versions of the image still ends with the new
  version: the append is not undone.
\<close>

theorem persistence_failure_keeps_append:
  assumes vs: "Versions self = v0 # vs"
    and miss: "\<forall>v \<in> set (Versions self). \<not> matchVersion v sr w h c (Grayscale v0 \<or> gs)"
    and load: "LoadImage env v0 = Inr orig"
    and new: "new = newImageVersion (Filename v0) (ContentType v0) sr w h (Grayscale v0 \<or> gs)"
    and pic: "pic = versionImage env v0 orig sr w h (Grayscale v0 \<or> gs) c"
    and fail: "VersionSaveImage env new pic = Some err \<or>
               (VersionSaveImage env new pic = None \<and>
                BackendSaveImage env (self\<lparr>Versions := Versions self @ [new]\<rparr>) = Some err)"
  shows "result (SourceRectVersion env self sr w h gs c) = Inl err \<and>
         Versions (image (SourceRectVersion env self sr w h gs c)) = Versions self @ [new]"
proof -
  have none: "searchVersions sr w h c (Grayscale v0 \<or> gs) (Versions self) 0 = None"
    using miss by (simp add: searchVersions_None)
  show ?thesis
    using fail
    by (auto simp: SourceRectVersion_miss[OF vs none load new pic refl refl])
qed

theorem persistence_failure_keeps_append_witness:
  "result (SourceRectVersion storageFull photo (Rect 100 0 700 600) 400 400 False RGBA_zero)
     = Inl StorageError \<and>
   Versions (image (SourceRectVersion storageFull photo (Rect 100 0 700 600) 400 400 False RGBA_zero))
     = [original800x600,
        newImageVersion ''a.png'' ''image/png'' (Rect 100 0 700 600) 400 400 False]"
proof -
  have vs: "Versions photo = original800x600 # []" by (simp add: photo_def)
  have miss: "\<forall>v \<in> set (Versions photo). \<not> matchVersion v (Rect 100 0 700 600) 400 400 RGBA_zero
                 (Grayscale original800x600 \<or> False)"
    by (simp add: photo_def original800x600_def newImageVersion_def matchVersion_def)
  have load: "LoadImage storageFull original800x600 = Inr (NewRGBA (Rect 0 0 800 600))"
    by (simp add: storageFull_def storageOK_def)
  have fail: "VersionSaveImage storageFull
        (newImageVersion (Filename original800x600) (ContentType original800x600)
           (Rect 100 0 700 600) 400 400 (Grayscale original800x600 \<or> False))
        (versionImage storageFull original800x600 (NewRGBA (Rect 0 0 800 600))
           (Rect 100 0 700 600) 400 400 (Grayscale original800x600 \<or> False) RGBA_zero)
        = Some StorageError \<or> 
        (VersionSaveImage storageFull
        (newImageVersion (Filename original800x600) (ContentType original800x600)
           (Rect 100 0 700 600) 400 400 (Grayscale original800x600 \<or> False))
        (versionImage storageFull original800x600 (NewRGBA (Rect 0 0 800 600))
           (Rect 100 0 700 600) 400 400 (Grayscale original800x600 \<or> False) RGBA_zero)
        = None \<and> BackendSaveImage storageFull (photo\<lparr>Versions := Versions photo @ 
        [newImageVersion (Filename original800x600) (ContentType original800x600)
           (Rect 100 0 700 600) 400 400 (Grayscale original800x600 \<or> False)]\<rparr>) = Some StorageError)"
    by (simp add: storageFull_def)
  from persistence_failure_keeps_append[OF vs miss load refl refl fail]
  show ?thesis by (simp add: photo_def original800x600_def newImageVersion_def)
qed

section \<open>Asking twice\<close>

lemma searchVersions_append:
  assumes "\<forall>v \<in> set xs. \<not> matchVersion v sr w h c g"
  shows "searchVersions sr w h c g (xs @ [n]) k =
           (if matchVersion n sr w h c g then Some (k + length xs) else None)"
  using assms by (induction xs arbitrary: k) auto

lemma newImageVersion_matches:
  "matchVersion (newImageVersion f t sr w h g) sr w h c g \<longleftrightarrow> c = RGBA_zero"
  by (auto simp: matchVersion_def newImageVersion_def EqualsColor_def)

lemma same_key_twice_default_colour:
  assumes vs: "Versions self = v0 # vs"
    and ok: "result (SourceRectVersion env self sr w h gs RGBA_zero) = Inr i"
  shows "SourceRectVersion env' (image (SourceRectVersion env self sr w h gs RGBA_zero))
           sr w h gs RGBA_zero =
         \<lparr>result = Inr i, image = image (SourceRectVersion env self sr w h gs RGBA_zero), trace = []\<rparr>"
proof (cases "searchVersions sr w h RGBA_zero (Grayscale v0 \<or> gs) (Versions self) 0")
  case (Some k)
  have "k = i" using ok by (simp add: SourceRectVersion_hit[OF vs Some])
  then show ?thesis by (simp add: SourceRectVersion_hit[OF vs Some])
next
  case None
  then have none: "\<forall>v \<in> set (Versions self). \<not> matchVersion v sr w h RGBA_zero (Grayscale v0 \<or> gs)"
    by (simp add: searchVersions_None)
  obtain orig where load: "LoadImage env v0 = Inr orig"
    using ok by (cases "LoadImage env v0") (simp_all add: SourceRectVersion_load_fails[OF vs None])
  define new where "new = newImageVersion (Filename v0) (ContentType v0) sr w h (Grayscale v0 \<or> gs)"
  define self' where "self' = self\<lparr>Versions := Versions self @ [new]\<rparr>"
  note m = SourceRectVersion_miss[OF vs None load new_def refl refl self'_def]
  have im: "image (SourceRectVersion env self sr w h gs RGBA_zero) = self'"
    and i: "i = length (Versions self)"
    using ok by (simp_all add: m split: option.splits)
  have vs': "Versions self' = v0 # (vs @ [new])" by (simp add: self'_def vs)
  have "searchVersions sr w h RGBA_zero (Grayscale v0 \<or> gs) (Versions self') 0 = Some i"
    using searchVersions_append[OF none, of new 0]
    by (simp add: self'_def i new_def newImageVersion_matches)
  from SourceRectVersion_hit[OF vs' this] show ?thesis by (simp add: im)
qed

lemma other_colour_never_cached:
  assumes vs: "Versions self = v0 # vs"
    and c: "c \<noteq> RGBA_zero"
    and miss: "\<forall>v \<in> set (Versions self). \<not> matchVersion v sr w h c (Grayscale v0 \<or> gs)"
    and ok: "result (SourceRectVersion env self sr w h gs c) = Inr i"
    and load': "LoadImage env' v0 = Inr orig'"
  shows "length (Versions (image (SourceRectVersion env'
            (image (SourceRectVersion env self sr w h gs c)) sr w h gs c))) =
         length (Versions self) + 2"
proof -
  have None: "searchVersions sr w h c (Grayscale v0 \<or> gs) (Versions self) 0 = None"
    using miss by (simp add: searchVersions_None)
  obtain orig where load: "LoadImage env v0 = Inr orig"
    using ok by (cases "LoadImage env v0") (simp_all add: SourceRectVersion_load_fails[OF vs None])
  define new where "new = newImageVersion (Filename v0) (ContentType v0) sr w h (Grayscale v0 \<or> gs)"
  define self' where "self' = self\<lparr>Versions := Versions self @ [new]\<rparr>"
  note m = SourceRectVersion_miss[OF vs None load new_def refl refl self'_def]
  have im: "image (SourceRectVersion env self sr w h gs c) = self'"
    using ok by (simp add: m split: option.splits)
  have vs': "Versions self' = v0 # (vs @ [new])" by (simp add: self'_def vs)
  have None': "searchVersions sr w h c (Grayscale v0 \<or> gs) (Versions self') 0 = None"
    using searchVersions_append[OF miss, of new 0] c
    by (simp add: self'_def new_def newImageVersion_matches)
  have "length (Versions (image (SourceRectVersion env' self' sr w h gs c))) =
          length (Versions self') + 1"
    by (simp add: SourceRectVersion_miss[OF vs' None' load' refl refl refl refl]
        split: option.splits)
  also have "length (Versions self') = length (Versions self) + 1" by (simp add: self'_def)
  finally show ?thesis by (simp add: im)
qed

text \<open>
  C3 fails on the code. The new version is built by \<open>newImageVersion\<close>, which is not
  given the fill colour, so the stored \<open>OutsideColor\<close> is the zero value whatever was
  asked. A second identical request with another fill colour finds no match and adds a
  third version: here for the 800 x 600 original, asked twice for 400 x 400 covering from
  outside with opaque red, every collaborator succeeding.
\<close>

theorem repeated_outside_request_duplicates:
  "result (VersionTouchOrigFromOutside storageOK photo 400 400 HorCenter VerCenter False
             (RGBA 255 0 0 255)) = Inr 1 \<and>
   result (VersionTouchOrigFromOutside storageOK
             (image (VersionTouchOrigFromOutside storageOK photo 400 400 HorCenter VerCenter False
                (RGBA 255 0 0 255)))
             400 400 HorCenter VerCenter False (RGBA 255 0 0 255)) = Inr 2 \<and>
   length (Versions (image (VersionTouchOrigFromOutside storageOK
             (image (VersionTouchOrigFromOutside storageOK photo 400 400 HorCenter VerCenter False
                (RGBA 255 0 0 255)))
             400 400 HorCenter VerCenter False (RGBA 255 0 0 255)))) = 3"
  by code_simp

section \<open>Ingestion and the life of the version list\<close>

lemma SourceRectVersion_appends:
  "\<exists>ws. Versions (image (SourceRectVersion env self sr w h gs c)) = Versions self @ ws \<and>
        length ws \<le> 1"
proof (cases "Versions self")
  case Nil
  then show ?thesis by (simp add: SourceRectVersion_def)
next
  case (Cons v0 vs)
  show ?thesis
  proof (cases "searchVersions sr w h c (Grayscale v0 \<or> gs) (Versions self) 0")
    case (Some k)
    show ?thesis by (simp add: SourceRectVersion_hit[OF Cons Some])
  next
    case None
    show ?thesis
    proof (cases "LoadImage env v0")
      case (Inl err)
      show ?thesis by (simp add: SourceRectVersion_load_fails[OF Cons None Inl])
    next
      case (Inr orig)
      show ?thesis
        by (simp add: SourceRectVersion_miss[OF Cons None Inr refl refl refl refl]
            split: option.splits)
    qed
  qed
qed

lemma storeOriginal_single:
  assumes "storeOriginal codec filename data i t = Inr img"
    and "0 \<le> Dx (Bounds i)" "0 \<le> Dy (Bounds i)"
  shows "\<exists>v. Versions img = [v] \<and> Width v = Dx (Bounds i) \<and> Height v = Dy (Bounds i) \<and>
             SourceRect v = \<lparr>MinR = \<lparr>X = 0, Y = 0\<rparr>, MaxR = \<lparr>X = Width v, Y = Height v\<rparr>\<rparr>"
  using assms
  by (auto simp: storeOriginal_def Let_def newImageVersion_def Rect_def split: option.splits)

text \<open>
  C8. An image returned by \<open>NewImage\<close>, the decoder delivering pictures of non-negative
  width and height, has exactly one version, whose source rectangle is
  \<open>(0,0)-(originalWidth,originalHeight)\<close>; and \<open>SourceRectVersion\<close>, \<open>Version\<close> and
  \<open>VersionTouchOrigFromOutside\<close> leave the list of versions of any image as it was or
  with versions appended, never shorter.
\<close>

theorem new_image_one_version_append_only:
  assumes new: "NewImage codec filename data = Inr img"
    and wf: "\<forall>d i t. Decode codec d = Inr (i, t) \<longrightarrow> 0 \<le> Dx (Bounds i) \<and> 0 \<le> Dy (Bounds i)"
  shows "(\<exists>v. Versions img = [v] \<and>
              SourceRect v = \<lparr>MinR = \<lparr>X = 0, Y = 0\<rparr>, MaxR = \<lparr>X = Width v, Y = Height v\<rparr>\<rparr>) \<and>
         (\<forall>env self sr w h g c. \<exists>ws.
              Versions (image (SourceRectVersion env self sr w h g c)) = Versions self @ ws) \<and>
         (\<forall>env self w h ha va g. \<exists>ws.
              Versions (image (Version env self w h ha va g)) = Versions self @ ws) \<and>
         (\<forall>env self w h ha va g c. \<exists>ws.
              Versions (image (VersionTouchOrigFromOutside env self w h ha va g c)) = Versions self @ ws)"
proof (intro conjI allI)
  show "\<exists>v. Versions img = [v] \<and>
              SourceRect v = \<lparr>MinR = \<lparr>X = 0, Y = 0\<rparr>, MaxR = \<lparr>X = Width v, Y = Height v\<rparr>\<rparr>"
  proof (cases "Decode codec data")
    case (Inl err)
    then show ?thesis using new by (simp add: NewImage_def)
  next
    case (Inr p)
    obtain i t where p: "p = (i, t)" by (cases p)
    note d = Inr[unfolded p]
    show ?thesis
    proof (cases "t = ''gif'' \<or> t = ''bmp'' \<or> t = ''tiff''")
      case False
      then have "storeOriginal codec filename data i t = Inr img"
        using new d by (simp add: NewImage_def)
      from storeOriginal_single[OF this] wf d show ?thesis by blast
    next
      case True
      then obtain buf i' t' where e: "EncodePNG codec i = Inr buf"
        and d': "Decode codec buf = Inr (i', t')"
        and s: "storeOriginal codec (filename @ ''.png'') buf i' t' = Inr img"
        using new d by (auto simp: NewImage_def split: sum.splits)
      from storeOriginal_single[OF s] wf d' show ?thesis by blast
    qed
  qed
next
  fix env self sr w h g c
  show "\<exists>ws. Versions (image (SourceRectVersion env self sr w h g c)) = Versions self @ ws"
    using SourceRectVersion_appends[of env self sr w h g c] by blast
next
  fix env self w h ha va g
  show "\<exists>ws. Versions (image (Version env self w h ha va g)) = Versions self @ ws"
    using SourceRectVersion_appends[of env self _ w h g RGBA_zero]
    by (auto simp: Version_def split: sum.splits)
next
  fix env self w h ha va g c
  show "\<exists>ws. Versions (image (VersionTouchOrigFromOutside env self w h ha va g c)) = Versions self @ ws"
    using SourceRectVersion_appends[of env self _ w h g c]
    by (auto simp: VersionTouchOrigFromOutside_def split: sum.splits)
qed

theorem new_image_one_version_append_only_witness:
  "NewImage pngCodec ''a.png'' [] = Inr photo \<and>
   (\<exists>v. Versions photo = [v] \<and>
        SourceRect v = \<lparr>MinR = \<lparr>X = 0, Y = 0\<rparr>, MaxR = \<lparr>X = Width v, Y = Height v\<rparr>\<rparr>) \<and>
   (\<exists>ws. Versions (image (Version storageOK photo 400 400 HorCenter VerCenter False))
           = Versions photo @ ws)"
proof -
  have new: "NewImage pngCodec ''a.png'' [] = Inr photo"
    by (simp add: NewImage_def pngCodec_def storeOriginal_def photo_def original800x600_def
        NewRGBA_def Rect_def Dx_def Dy_def Let_def)
  have wf: "\<forall>d i t. Decode pngCodec d = Inr (i, t) \<longrightarrow> 0 \<le> Dx (Bounds i) \<and> 0 \<le> Dy (Bounds i)"
    by (auto simp: pngCodec_def NewRGBA_def Rect_def Dx_def Dy_def)
  from new_image_one_version_append_only[OF new wf] new show ?thesis by blast
qed

end
